theory Spec2Isabelle
  imports Main "HOL-Library.Word"
begin

unbundle bit_operations_syntax

section \<open>The I2S driver interface of pmsis\_api (include/pmsis/drivers/i2s.h)\<close>

text \<open>
  The repository is an API header: it fixes the option and format constants, the
  configuration structures and the prototypes of the driver entry points. The
  constants are translated as they are written, \<open>(v << s)\<close> as \<open>push_bit s v\<close>,
  at the width of the \<open>uint8_t\<close> typedef that carries them.
\<close>

subsection \<open>Interface options: \<open>pi_i2s_opt_t\<close> and \<open>pi_i2s_ch_opt_t\<close>\<close>

type_synonym pi_i2s_opt_t = "8 word"
type_synonym pi_i2s_ch_opt_t = "8 word"

definition PI_I2S_OPT_MEM_SLAB :: pi_i2s_opt_t where
  "PI_I2S_OPT_MEM_SLAB = push_bit 0 1"

definition PI_I2S_OPT_PINGPONG :: pi_i2s_opt_t where
  "PI_I2S_OPT_PINGPONG = push_bit 0 0"

definition PI_I2S_OPT_TDM :: pi_i2s_opt_t where
  "PI_I2S_OPT_TDM = push_bit 1 1"

definition PI_I2S_CH_OPT_MEM_SLAB :: pi_i2s_ch_opt_t where
  "PI_I2S_CH_OPT_MEM_SLAB = push_bit 0 1"

definition PI_I2S_CH_OPT_PINGPONG :: pi_i2s_ch_opt_t where
  "PI_I2S_CH_OPT_PINGPONG = push_bit 0 0"

text \<open>
  The header defines no accessor for the buffer mode. Both mode constants sit at bit
  position 0, so the mode of an options byte is the value of that bit, read through the
  only mask the header gives for it (\<open>PI_I2S_OPT_MEM_SLAB\<close>) and compared with the
  constant of each mode. TDM is the flag at bit 1.
\<close>

definition opt_is_mem_slab :: "pi_i2s_opt_t \<Rightarrow> bool" where
  "opt_is_mem_slab opts \<longleftrightarrow> opts AND PI_I2S_OPT_MEM_SLAB = PI_I2S_OPT_MEM_SLAB"

definition opt_is_pingpong :: "pi_i2s_opt_t \<Rightarrow> bool" where
  "opt_is_pingpong opts \<longleftrightarrow> opts AND PI_I2S_OPT_MEM_SLAB = PI_I2S_OPT_PINGPONG"

definition opt_is_tdm :: "pi_i2s_opt_t \<Rightarrow> bool" where
  "opt_is_tdm opts \<longleftrightarrow> opts AND PI_I2S_OPT_TDM = PI_I2S_OPT_TDM"

definition ch_opt_is_mem_slab :: "pi_i2s_ch_opt_t \<Rightarrow> bool" where
  "ch_opt_is_mem_slab opts \<longleftrightarrow> opts AND PI_I2S_CH_OPT_MEM_SLAB = PI_I2S_CH_OPT_MEM_SLAB"

definition ch_opt_is_pingpong :: "pi_i2s_ch_opt_t \<Rightarrow> bool" where
  "ch_opt_is_pingpong opts \<longleftrightarrow> opts AND PI_I2S_CH_OPT_MEM_SLAB = PI_I2S_CH_OPT_PINGPONG"

subsection \<open>Channel format: \<open>pi_i2s_ch_fmt_t\<close>\<close>

type_synonym pi_i2s_ch_fmt_t = "8 word"

definition PI_I2S_CH_FMT_DATA_ORDER_SHIFT :: nat where
  "PI_I2S_CH_FMT_DATA_ORDER_SHIFT = 0"

definition PI_I2S_CH_FMT_DATA_ORDER_MASK :: pi_i2s_ch_fmt_t where
  "PI_I2S_CH_FMT_DATA_ORDER_MASK = push_bit 0 1"

definition PI_I2S_CH_FMT_DATA_ALIGN_SHIFT :: nat where
  "PI_I2S_CH_FMT_DATA_ALIGN_SHIFT = 1"

definition PI_I2S_CH_FMT_DATA_ALIGN_MASK :: pi_i2s_ch_fmt_t where
  "PI_I2S_CH_FMT_DATA_ALIGN_MASK = push_bit 1 1"

definition PI_I2S_CH_FMT_DATA_SIGN_SHIFT :: nat where
  "PI_I2S_CH_FMT_DATA_SIGN_SHIFT = 2"

definition PI_I2S_CH_FMT_DATA_SIGN_MASK :: pi_i2s_ch_fmt_t where
  "PI_I2S_CH_FMT_DATA_SIGN_MASK = push_bit 2 1"

definition PI_I2S_CH_FMT_DATA_ORDER_MSB :: pi_i2s_ch_fmt_t where
  "PI_I2S_CH_FMT_DATA_ORDER_MSB = push_bit 0 0"

definition PI_I2S_CH_FMT_DATA_ORDER_LSB :: pi_i2s_ch_fmt_t where
  "PI_I2S_CH_FMT_DATA_ORDER_LSB = push_bit 0 1"

definition PI_I2S_CH_FMT_DATA_ALIGN_LEFT :: pi_i2s_ch_fmt_t where
  "PI_I2S_CH_FMT_DATA_ALIGN_LEFT = push_bit 1 0"

definition PI_I2S_CH_FMT_DATA_ALIGN_RIGHT :: pi_i2s_ch_fmt_t where
  "PI_I2S_CH_FMT_DATA_ALIGN_RIGHT = push_bit 1 1"

definition PI_I2S_CH_FMT_DATA_SIGN_NO_EXTEND :: pi_i2s_ch_fmt_t where
  "PI_I2S_CH_FMT_DATA_SIGN_NO_EXTEND = push_bit 2 0"

definition PI_I2S_CH_FMT_DATA_SIGN_EXTEND :: pi_i2s_ch_fmt_t where
  "PI_I2S_CH_FMT_DATA_SIGN_EXTEND = push_bit 2 1"

text \<open>One format byte is built by OR-ing one value of each field.\<close>

definition ch_fmt :: "pi_i2s_ch_fmt_t \<Rightarrow> pi_i2s_ch_fmt_t \<Rightarrow> pi_i2s_ch_fmt_t \<Rightarrow> pi_i2s_ch_fmt_t" where
  "ch_fmt ord al sg = ord OR al OR sg"

subsection \<open>Prototypes of the entry points\<close>

text \<open>
  The entry points the header declares, with the return type of each prototype and the
  return values its comment documents (\<open>\return 0 if the operation is successfull, -1 if
  there was an error\<close> for \<open>pi_i2s_open\<close>, \<open>@retval 0 If successful, -1 if not\<close> for the
  read functions). \<open>pi_i2s_ioctl\<close> returns \<open>int\<close> and its comment documents no value.
\<close>

datatype c_type = C_void | C_int

datatype pi_i2s_fn =
    pi_i2s_setup
  | pi_i2s_conf_init
  | pi_i2s_open
  | pi_i2s_close
  | pi_i2s_ioctl
  | pi_i2s_read
  | pi_i2s_read_async
  | pi_i2s_channel_read
  | pi_i2s_channel_read_async
  | pi_i2s_read_status

fun return_type :: "pi_i2s_fn \<Rightarrow> c_type" where
  "return_type pi_i2s_setup = C_void"
| "return_type pi_i2s_conf_init = C_void"
| "return_type pi_i2s_open = C_int"
| "return_type pi_i2s_close = C_void"
| "return_type pi_i2s_ioctl = C_int"
| "return_type pi_i2s_read = C_int"
| "return_type pi_i2s_read_async = C_int"
| "return_type pi_i2s_channel_read = C_int"
| "return_type pi_i2s_channel_read_async = C_int"
| "return_type pi_i2s_read_status = C_int"

text \<open>The documented pair (value on success, value on error), where the comment gives one.\<close>

fun documented_codes :: "pi_i2s_fn \<Rightarrow> (int \<times> int) option" where
  "documented_codes pi_i2s_setup = None"
| "documented_codes pi_i2s_conf_init = None"
| "documented_codes pi_i2s_open = Some (0, - 1)"
| "documented_codes pi_i2s_close = None"
| "documented_codes pi_i2s_ioctl = None"
| "documented_codes pi_i2s_read = Some (0, - 1)"
| "documented_codes pi_i2s_read_async = Some (0, - 1)"
| "documented_codes pi_i2s_channel_read = Some (0, - 1)"
| "documented_codes pi_i2s_channel_read_async = Some (0, - 1)"
| "documented_codes pi_i2s_read_status = Some (0, - 1)"

text \<open>An entry point can report an outcome through a return code only if it returns one.\<close>

definition returns_code :: "pi_i2s_fn \<Rightarrow> bool" where
  "returns_code f \<longleftrightarrow> return_type f = C_int"

text \<open>
  Modelled from the spec: the value an entry point hands back to its caller, which the
  header cannot show because it has no function body. The prototype decides whether there
  is a value at all (\<open>void\<close> returns none); for an \<open>int\<close> the specification fixes one
  convention for all operations, 0 on success and a negative value on error, and the
  negative value is the -1 that the header documents.
\<close>

datatype outcome = Success | Failure

definition return_value :: "pi_i2s_fn \<Rightarrow> outcome \<Rightarrow> int option" where
  "return_value f out =
     (case return_type f of
        C_void \<Rightarrow> None
      | C_int \<Rightarrow> Some (case out of Success \<Rightarrow> 0 | Failure \<Rightarrow> - 1))"

section \<open>The completion path of one channel\<close>

text \<open>
  The header declares \<open>pi_i2s_read\<close>, \<open>pi_i2s_read_async\<close> and their per-channel
  variants, and says that a read returns the next available buffer of the RX queue and
  that the task of an asynchronous read is pushed as soon as data is ready. The code
  behind these prototypes (buffer pool, request queue, completion dispatcher) is not in
  the header, so this section models it from the specification, one definition per
  operation the specification names. The device state (Idle, Running, StoppingRequested)
  has no part in which request a completion event resolves and is left out. A channel context owns its pool and its queue
  exclusively and calls on one channel are serialised, so one channel is modelled on its
  own and an execution is a sequence of events on it.
\<close>

text \<open>Modelled from the spec: the four ownership states of a buffer (data model, Buffer).\<close>

datatype buf_state = Free | ArmedForHardware | Ready | Draining

text \<open>Modelled from the spec: the two buffer modes of a pool (slab, ping-pong).\<close>

datatype pool_mode = Slab | Pingpong

text \<open>
  Modelled from the spec: the error conditions of the buffer pool. \<open>NotOwned\<close> stands
  for an operation on a buffer that is not in the state the transition starts from, which
  the specification excludes without naming it.
\<close>

datatype error = PoolExhausted | ShortBlock | NoneReady | NotOwned

text \<open>
  Modelled from the spec: a buffer is an address, a state and the byte count recorded
  when it was filled; its fixed size is the block size of its pool.
\<close>

record buffer =
  addr :: nat
  filled :: nat
  bstate :: buf_state

text \<open>
  Modelled from the spec: the buffer pool, an arena of buffer slots indexed by position
  with its mode and block size fixed at configuration time, the position where the
  rotation continues, and the queue of Ready slots, oldest first.
\<close>

record pool =
  mode :: pool_mode
  block_size :: nat
  bufs :: "buffer list"
  rotation :: nat
  ready_q :: "nat list"

text \<open>Modelled from the spec: the buffer descriptor given to a consumer, address and size.\<close>

type_synonym descriptor = "nat \<times> nat"

text \<open>Modelled from the spec: writing the state tag of slot \<open>i\<close>.\<close>

definition set_state :: "pool \<Rightarrow> nat \<Rightarrow> buf_state \<Rightarrow> pool" where
  "set_state p i s = p\<lparr>bufs := (bufs p)[i := (bufs p ! i)\<lparr>bstate := s\<rparr>]\<rparr>"

text \<open>Modelled from the spec: slot \<open>i\<close> exists and carries the state tag \<open>s\<close>.\<close>

definition in_state :: "pool \<Rightarrow> nat \<Rightarrow> buf_state \<Rightarrow> bool" where
  "in_state p i s \<longleftrightarrow> i < length (bufs p) \<and> bstate (bufs p ! i) = s"

text \<open>
  Modelled from the spec: the next Free buffer in rotation order, looked for in ring
  order from position \<open>k\<close> over \<open>n\<close> slots; \<open>None\<close> if none of them is Free.
\<close>

fun next_free :: "pool \<Rightarrow> nat \<Rightarrow> nat \<Rightarrow> nat option" where
  "next_free p k 0 = None"
| "next_free p k (Suc n) =
     (if in_state p (k mod length (bufs p)) Free then Some (k mod length (bufs p))
      else next_free p (Suc k) n)"

text \<open>
  Modelled from the spec: \<open>acquire_for_hardware()\<close> returns the next Free buffer in
  rotation order and hands it to the hardware (Free to ArmedForHardware), or fails with
  \<open>PoolExhausted\<close> if none is Free.
\<close>

definition acquire_for_hardware :: "pool \<Rightarrow> error + (pool \<times> nat)" where
  "acquire_for_hardware p =
     (case next_free p (rotation p) (length (bufs p)) of
        None \<Rightarrow> Inl PoolExhausted
      | Some i \<Rightarrow>
          Inr ((set_state p i ArmedForHardware)\<lparr>rotation := Suc i mod length (bufs p)\<rparr>, i))"

text \<open>
  Modelled from the spec: \<open>mark_ready(buffer, bytes_filled)\<close> moves the buffer from
  ArmedForHardware to Ready, records the byte count and puts it last in the queue of
  Ready buffers.
\<close>

definition mark_ready :: "pool \<Rightarrow> nat \<Rightarrow> nat \<Rightarrow> error + pool" where
  "mark_ready p i n =
     (if in_state p i ArmedForHardware
      then Inr (p\<lparr>bufs := (bufs p)[i := (bufs p ! i)\<lparr>filled := n, bstate := Ready\<rparr>],
                  ready_q := ready_q p @ [i]\<rparr>)
      else Inl NotOwned)"

text \<open>
  Modelled from the spec: the \<open>ShortBlock\<close> condition of \<open>mark_ready\<close>. The byte
  count may be less than the block size only at end of stream and must equal it
  otherwise.
\<close>

definition short_block :: "pool \<Rightarrow> nat \<Rightarrow> bool \<Rightarrow> bool" where
  "short_block p n eos \<longleftrightarrow> \<not> (n = block_size p \<or> (eos \<and> n < block_size p))"

text \<open>
  Modelled from the spec: \<open>take_ready()\<close> moves the oldest Ready buffer to Draining and
  returns its descriptor, or fails with \<open>NoneReady\<close> if the queue is empty.
\<close>

definition take_ready :: "pool \<Rightarrow> error + (pool \<times> descriptor)" where
  "take_ready p =
     (case ready_q p of
        [] \<Rightarrow> Inl NoneReady
      | i # q \<Rightarrow>
          if in_state p i Ready
          then Inr (set_state (p\<lparr>ready_q := q\<rparr>) i Draining,
                    (addr (bufs p ! i), filled (bufs p ! i)))
          else Inl NotOwned)"

text \<open>
  Modelled from the spec: \<open>release(buffer)\<close> moves a Draining buffer to Free in slab
  mode and re-arms it at once (Draining to ArmedForHardware) in ping-pong mode.
\<close>

definition release :: "pool \<Rightarrow> nat \<Rightarrow> error + pool" where
  "release p i =
     (if in_state p i Draining
      then Inr (set_state p i (case mode p of Slab \<Rightarrow> Free | Pingpong \<Rightarrow> ArmedForHardware))
      else Inl NotOwned)"

text \<open>
  Modelled from the spec: who waits for a buffer of the channel, the task token of an
  asynchronous read or the caller blocked in a synchronous read. Both wait in the same
  queue, in issue order.
\<close>

datatype reader = Task nat | Caller nat

text \<open>
  Modelled from the spec: the channel context, with its own buffer pool and its own
  queue of pending requests, oldest first. \<open>resolved\<close> is the record of the requests
  resolved so far with the result each one got, in the order they were resolved;
  \<open>stopped\<close> is set when a fatal error stops the channel.
\<close>

record channel =
  chan_pool :: pool
  pending :: "reader list"
  resolved :: "(reader \<times> (error + descriptor)) list"
  stopped :: bool

text \<open>Modelled from the spec: resolving one request, with a descriptor or an error.\<close>

definition resolve :: "channel \<Rightarrow> reader \<Rightarrow> error + descriptor \<Rightarrow> channel" where
  "resolve c r res = c\<lparr>resolved := resolved c @ [(r, res)]\<rparr>"

text \<open>
  Modelled from the spec: the handling of \<open>PoolExhausted\<close> and \<open>ShortBlock\<close>, fatal to
  the transfer: the channel is stopped and all its pending requests are resolved with the
  error, here from the oldest to the newest.
\<close>

definition fail_all :: "channel \<Rightarrow> error \<Rightarrow> channel" where
  "fail_all c e =
     c\<lparr>resolved := resolved c @ map (\<lambda>r. (r, Inl e)) (pending c),
       pending := [], stopped := True\<rparr>"

text \<open>
  Modelled from the spec: the completion dispatcher for one hardware completion event on
  slot \<open>i\<close> with \<open>n\<close> bytes filled. It calls \<open>mark_ready\<close>; then, if the request queue
  is non-empty, it pops the oldest request, calls \<open>take_ready\<close> and resolves the request
  with the descriptor; if the queue is empty the buffer stays Ready. An event for a slot
  the hardware does not own changes nothing.
\<close>

definition completion :: "channel \<Rightarrow> nat \<Rightarrow> nat \<Rightarrow> bool \<Rightarrow> channel" where
  "completion c i n eos =
     (case mark_ready (chan_pool c) i n of
        Inl e \<Rightarrow> c
      | Inr p \<Rightarrow>
          if short_block p n eos then fail_all (c\<lparr>chan_pool := p\<rparr>) ShortBlock
          else (case pending c of
                  [] \<Rightarrow> c\<lparr>chan_pool := p\<rparr>
                | r # rs \<Rightarrow>
                    (case take_ready p of
                       Inl e \<Rightarrow> c\<lparr>chan_pool := p\<rparr>
                     | Inr (p', d) \<Rightarrow>
                         resolve (c\<lparr>chan_pool := p', pending := rs\<rparr>) r (Inr d))))"

text \<open>
  Modelled from the spec: a read request of either kind. If a Ready buffer exists it is
  taken and the request resolves at once; otherwise the request is queued behind the
  requests already waiting.
\<close>

definition read_request :: "channel \<Rightarrow> reader \<Rightarrow> channel" where
  "read_request c r =
     (case take_ready (chan_pool c) of
        Inr (p', d) \<Rightarrow> resolve (c\<lparr>chan_pool := p'\<rparr>) r (Inr d)
      | Inl e \<Rightarrow> c\<lparr>pending := pending c @ [r]\<rparr>)"

text \<open>
  Modelled from the spec: what can happen on a channel. \<open>Acquire\<close> is the transfer
  engine asking the pool for the next buffer of the hardware, \<open>Hw_complete i n eos\<close> a
  hardware completion event, \<open>Read_async t\<close> a call of \<open>pi_i2s_read_async\<close> or
  \<open>pi_i2s_channel_read_async\<close> with task \<open>t\<close>, \<open>Read_blocking k\<close> a call of
  \<open>pi_i2s_read\<close> or \<open>pi_i2s_channel_read\<close> by caller \<open>k\<close>, \<open>Release i\<close> the caller
  giving slot \<open>i\<close> back.
\<close>

datatype event =
    Acquire
  | Hw_complete nat nat bool
  | Read_async nat
  | Read_blocking nat
  | Release nat

text \<open>Modelled from the spec: the effect of one event on the channel.\<close>

fun step :: "channel \<Rightarrow> event \<Rightarrow> channel" where
  "step c Acquire =
     (case acquire_for_hardware (chan_pool c) of
        Inl e \<Rightarrow> fail_all c e
      | Inr (p, i) \<Rightarrow> c\<lparr>chan_pool := p\<rparr>)"
| "step c (Hw_complete i n eos) = completion c i n eos"
| "step c (Read_async t) = read_request c (Task t)"
| "step c (Read_blocking k) = read_request c (Caller k)"
| "step c (Release i) =
     (case release (chan_pool c) i of Inl e \<Rightarrow> c | Inr p \<Rightarrow> c\<lparr>chan_pool := p\<rparr>)"

text \<open>Modelled from the spec: an execution, the events taken one after the other.\<close>

fun run :: "channel \<Rightarrow> event list \<Rightarrow> channel" where
  "run c [] = c"
| "run c (e # es) = run (step c e) es"

text \<open>
  Modelled from the spec: the channel of a freshly opened device. Every buffer is Free,
  nothing is queued and nothing has been resolved.
\<close>

definition init_channel :: "pool_mode \<Rightarrow> nat \<Rightarrow> nat list \<Rightarrow> channel" where
  "init_channel m bs addrs =
     \<lparr>chan_pool = \<lparr>mode = m, block_size = bs,
                   bufs = map (\<lambda>a. \<lparr>addr = a, filled = 0, bstate = Free\<rparr>) addrs,
                   rotation = 0, ready_q = []\<rparr>,
      pending = [], resolved = [], stopped = False\<rparr>"

text \<open>The channel an execution reaches from the opening of the device.\<close>

abbreviation reached :: "pool_mode \<Rightarrow> nat \<Rightarrow> nat list \<Rightarrow> event list \<Rightarrow> channel" where
  "reached m bs addrs es \<equiv> run (init_channel m bs addrs) es"

text \<open>The read requests an execution issues, in issue order, and the tasks among readers.\<close>

fun issued :: "event list \<Rightarrow> reader list" where
  "issued [] = []"
| "issued (Read_async t # es) = Task t # issued es"
| "issued (Read_blocking k # es) = Caller k # issued es"
| "issued (_ # es) = issued es"

fun tasks :: "reader list \<Rightarrow> nat list" where
  "tasks [] = []"
| "tasks (Task t # rs) = t # tasks rs"
| "tasks (Caller k # rs) = tasks rs"

text \<open>
  The invariants of the pool and of the channel: the queue of Ready slots holds each Ready
  slot once, and a request waits only while no buffer is Ready.
\<close>

definition pool_inv :: "pool \<Rightarrow> bool" where
  "pool_inv p \<longleftrightarrow> distinct (ready_q p) \<and> (\<forall>i \<in> set (ready_q p). in_state p i Ready)"

definition chan_inv :: "channel \<Rightarrow> bool" where
  "chan_inv c \<longleftrightarrow> pool_inv (chan_pool c) \<and> (pending c = [] \<or> ready_q (chan_pool c) = [])"

section \<open>Properties of the constants and prototypes\<close>

lemma and_bit0_cases: "(x :: 8 word) AND 1 = 0 \<or> x AND 1 = 1"
  by (simp add: and_one_eq) (metis even_iff_mod_2_eq_zero odd_iff_mod_2_eq_one)

text \<open>
  Claim C9. The ping-pong constants are 0 at the bit position of the mem-slab flag, so
  every options byte of the interface, and every options byte of a channel, selects
  exactly one of slab mode and ping-pong mode; OR-ing the ping-pong constant into a byte
  changes nothing, so the two constants OR-ed together select slab mode only; and the
  all-zero byte is ping-pong mode without TDM.
\<close>

theorem buffer_mode_exactly_one:
  "opt_is_mem_slab opts \<noteq> opt_is_pingpong opts
   \<and> ch_opt_is_mem_slab chopts \<noteq> ch_opt_is_pingpong chopts
   \<and> opts OR PI_I2S_OPT_PINGPONG = opts
   \<and> chopts OR PI_I2S_CH_OPT_PINGPONG = chopts
   \<and> opt_is_mem_slab (PI_I2S_OPT_MEM_SLAB OR PI_I2S_OPT_PINGPONG)
   \<and> \<not> opt_is_pingpong (PI_I2S_OPT_MEM_SLAB OR PI_I2S_OPT_PINGPONG)
   \<and> ch_opt_is_mem_slab (PI_I2S_CH_OPT_MEM_SLAB OR PI_I2S_CH_OPT_PINGPONG)
   \<and> \<not> ch_opt_is_pingpong (PI_I2S_CH_OPT_MEM_SLAB OR PI_I2S_CH_OPT_PINGPONG)
   \<and> opt_is_pingpong 0 \<and> \<not> opt_is_mem_slab 0 \<and> \<not> opt_is_tdm 0
   \<and> ch_opt_is_pingpong 0 \<and> \<not> ch_opt_is_mem_slab 0"
proof -
  have dev: "opt_is_mem_slab opts \<noteq> opt_is_pingpong opts"
    using and_bit0_cases [of opts]
    by (auto simp: opt_is_mem_slab_def opt_is_pingpong_def
        PI_I2S_OPT_MEM_SLAB_def PI_I2S_OPT_PINGPONG_def)
  have ch: "ch_opt_is_mem_slab chopts \<noteq> ch_opt_is_pingpong chopts"
    using and_bit0_cases [of chopts]
    by (auto simp: ch_opt_is_mem_slab_def ch_opt_is_pingpong_def
        PI_I2S_CH_OPT_MEM_SLAB_def PI_I2S_CH_OPT_PINGPONG_def)
  have rest: "opts OR PI_I2S_OPT_PINGPONG = opts"
    "chopts OR PI_I2S_CH_OPT_PINGPONG = chopts"
    "opt_is_mem_slab (PI_I2S_OPT_MEM_SLAB OR PI_I2S_OPT_PINGPONG)"
    "\<not> opt_is_pingpong (PI_I2S_OPT_MEM_SLAB OR PI_I2S_OPT_PINGPONG)"
    "ch_opt_is_mem_slab (PI_I2S_CH_OPT_MEM_SLAB OR PI_I2S_CH_OPT_PINGPONG)"
    "\<not> ch_opt_is_pingpong (PI_I2S_CH_OPT_MEM_SLAB OR PI_I2S_CH_OPT_PINGPONG)"
    "opt_is_pingpong 0" "\<not> opt_is_mem_slab 0" "\<not> opt_is_tdm 0"
    "ch_opt_is_pingpong 0" "\<not> ch_opt_is_mem_slab 0"
    by (simp_all add: opt_is_mem_slab_def opt_is_pingpong_def opt_is_tdm_def
        ch_opt_is_mem_slab_def ch_opt_is_pingpong_def
        PI_I2S_OPT_MEM_SLAB_def PI_I2S_OPT_PINGPONG_def PI_I2S_OPT_TDM_def
        PI_I2S_CH_OPT_MEM_SLAB_def PI_I2S_CH_OPT_PINGPONG_def)
  from dev ch rest show ?thesis by simp
qed

text \<open>
  Claim C10. The masks of data order (bit 0), data alignment (bit 1) and sign extension
  (bit 2) are pairwise disjoint, and for any choice of one value of each field, masking
  the OR of the three with the mask of a field gives back the value chosen for it.
\<close>

theorem ch_fmt_fields_independent:
  assumes "ord \<in> {PI_I2S_CH_FMT_DATA_ORDER_MSB, PI_I2S_CH_FMT_DATA_ORDER_LSB}"
    and "al \<in> {PI_I2S_CH_FMT_DATA_ALIGN_LEFT, PI_I2S_CH_FMT_DATA_ALIGN_RIGHT}"
    and "sg \<in> {PI_I2S_CH_FMT_DATA_SIGN_NO_EXTEND, PI_I2S_CH_FMT_DATA_SIGN_EXTEND}"
  shows "ch_fmt ord al sg AND PI_I2S_CH_FMT_DATA_ORDER_MASK = ord
    \<and> ch_fmt ord al sg AND PI_I2S_CH_FMT_DATA_ALIGN_MASK = al
    \<and> ch_fmt ord al sg AND PI_I2S_CH_FMT_DATA_SIGN_MASK = sg
    \<and> PI_I2S_CH_FMT_DATA_ORDER_MASK AND PI_I2S_CH_FMT_DATA_ALIGN_MASK = 0
    \<and> PI_I2S_CH_FMT_DATA_ORDER_MASK AND PI_I2S_CH_FMT_DATA_SIGN_MASK = 0
    \<and> PI_I2S_CH_FMT_DATA_ALIGN_MASK AND PI_I2S_CH_FMT_DATA_SIGN_MASK = 0"
  using assms
  unfolding ch_fmt_def
    PI_I2S_CH_FMT_DATA_ORDER_MASK_def PI_I2S_CH_FMT_DATA_ALIGN_MASK_def
    PI_I2S_CH_FMT_DATA_SIGN_MASK_def
    PI_I2S_CH_FMT_DATA_ORDER_MSB_def PI_I2S_CH_FMT_DATA_ORDER_LSB_def
    PI_I2S_CH_FMT_DATA_ALIGN_LEFT_def PI_I2S_CH_FMT_DATA_ALIGN_RIGHT_def
    PI_I2S_CH_FMT_DATA_SIGN_NO_EXTEND_def PI_I2S_CH_FMT_DATA_SIGN_EXTEND_def
  by auto

theorem ch_fmt_fields_independent_witness:
  "ch_fmt PI_I2S_CH_FMT_DATA_ORDER_LSB PI_I2S_CH_FMT_DATA_ALIGN_LEFT
      PI_I2S_CH_FMT_DATA_SIGN_EXTEND = 5
   \<and> ch_fmt PI_I2S_CH_FMT_DATA_ORDER_LSB PI_I2S_CH_FMT_DATA_ALIGN_LEFT
      PI_I2S_CH_FMT_DATA_SIGN_EXTEND AND PI_I2S_CH_FMT_DATA_ORDER_MASK
      = PI_I2S_CH_FMT_DATA_ORDER_LSB
   \<and> ch_fmt PI_I2S_CH_FMT_DATA_ORDER_LSB PI_I2S_CH_FMT_DATA_ALIGN_LEFT
      PI_I2S_CH_FMT_DATA_SIGN_EXTEND AND PI_I2S_CH_FMT_DATA_ALIGN_MASK
      = PI_I2S_CH_FMT_DATA_ALIGN_LEFT
   \<and> ch_fmt PI_I2S_CH_FMT_DATA_ORDER_LSB PI_I2S_CH_FMT_DATA_ALIGN_LEFT
      PI_I2S_CH_FMT_DATA_SIGN_EXTEND AND PI_I2S_CH_FMT_DATA_SIGN_MASK
      = PI_I2S_CH_FMT_DATA_SIGN_EXTEND"
proof -
  have five: "ch_fmt PI_I2S_CH_FMT_DATA_ORDER_LSB PI_I2S_CH_FMT_DATA_ALIGN_LEFT
      PI_I2S_CH_FMT_DATA_SIGN_EXTEND = 5"
    by (simp add: ch_fmt_def PI_I2S_CH_FMT_DATA_ORDER_LSB_def
        PI_I2S_CH_FMT_DATA_ALIGN_LEFT_def PI_I2S_CH_FMT_DATA_SIGN_EXTEND_def)
  show ?thesis
    using five
      ch_fmt_fields_independent [of PI_I2S_CH_FMT_DATA_ORDER_LSB
        PI_I2S_CH_FMT_DATA_ALIGN_LEFT PI_I2S_CH_FMT_DATA_SIGN_EXTEND]
    by simp
qed

text \<open>
  Claim C8, as stated: every entry point, \<open>pi_i2s_setup\<close> and \<open>pi_i2s_close\<close> among
  them, reports its outcome through a return code. The prototypes of these two return
  \<open>void\<close>.
\<close>

theorem close_and_setup_return_no_code:
  "\<not> returns_code pi_i2s_close \<and> \<not> returns_code pi_i2s_setup"
  by (simp add: returns_code_def)

text \<open>
  Claim C8, amended. The entry points whose prototype returns a code are all entry points
  but \<open>pi_i2s_setup\<close>, \<open>pi_i2s_conf_init\<close> and \<open>pi_i2s_close\<close>. Each of them, \<open>pi_i2s_ioctl\<close>
  included, returns 0 on success and a negative value on error, the same values for all of
  them, and these are the values the header documents wherever it documents any. The three
  \<open>void\<close> entry points return no code, whatever the outcome.
\<close>

theorem int_entry_points_return_zero_or_negative:
  "(returns_code f \<longleftrightarrow> f \<notin> {pi_i2s_setup, pi_i2s_conf_init, pi_i2s_close})
   \<and> (returns_code f \<longrightarrow>
        return_value f Success = Some 0
        \<and> (\<exists>v. v < 0 \<and> return_value f Failure = Some v))
   \<and> (returns_code f \<longrightarrow> returns_code g \<longrightarrow> return_value f out = return_value g out)
   \<and> (\<not> returns_code f \<longrightarrow> return_value f out = None)
   \<and> (documented_codes f = Some (ok, err) \<longrightarrow>
        return_value f Success = Some ok \<and> return_value f Failure = Some err)"
proof -
  have types: "returns_code f \<longleftrightarrow> f \<notin> {pi_i2s_setup, pi_i2s_conf_init, pi_i2s_close}"
    by (cases f) (simp_all add: returns_code_def)
  have int_value: "return_value h out = Some (case out of Success \<Rightarrow> 0 | Failure \<Rightarrow> - 1)"
    if "returns_code h" for h out
    using that by (simp add: returns_code_def return_value_def)
  have void_value: "return_value f out = None" if "\<not> returns_code f"
    using that by (cases "return_type f") (simp_all add: returns_code_def return_value_def)
  have documented: "returns_code f \<and> ok = 0 \<and> err = - 1"
    if "documented_codes f = Some (ok, err)"
    using that by (cases f) (simp_all add: returns_code_def)
  show ?thesis
    using types void_value documented int_value [of f] int_value [of g]
    by auto
qed

theorem int_entry_points_return_zero_or_negative_witness:
  "returns_code pi_i2s_ioctl
   \<and> returns_code pi_i2s_read_status
   \<and> return_value pi_i2s_ioctl Success = Some 0
   \<and> return_value pi_i2s_ioctl Failure = Some (- 1)
   \<and> return_value pi_i2s_ioctl Failure = return_value pi_i2s_read_status Failure
   \<and> \<not> returns_code pi_i2s_close
   \<and> return_value pi_i2s_close Failure = None
   \<and> documented_codes pi_i2s_read_status = Some (0, - 1)
   \<and> return_value pi_i2s_read_status Success = Some 0
   \<and> return_value pi_i2s_read_status Failure = Some (- 1)"
proof -
  have i: "returns_code pi_i2s_ioctl" and r: "returns_code pi_i2s_read_status"
    and c: "\<not> returns_code pi_i2s_close"
    by (simp_all add: returns_code_def)
  have d: "documented_codes pi_i2s_read_status = Some (0, - 1)"
    by simp
  have v: "return_value pi_i2s_ioctl Failure = Some (- 1)"
    by (simp add: return_value_def)
  note ioctl = int_entry_points_return_zero_or_negative
    [of pi_i2s_ioctl pi_i2s_read_status Failure 0 0]
  note closed = int_entry_points_return_zero_or_negative
    [of pi_i2s_close pi_i2s_close Failure 0 0]
  note status = int_entry_points_return_zero_or_negative
    [of pi_i2s_read_status pi_i2s_read_status Failure 0 "- 1"]
  from ioctl i r have "return_value pi_i2s_ioctl Success = Some 0"
    and "return_value pi_i2s_ioctl Failure = return_value pi_i2s_read_status Failure"
    by blast+
  moreover from closed c have "return_value pi_i2s_close Failure = None"
    by blast
  moreover from status d have "return_value pi_i2s_read_status Success = Some 0"
    and "return_value pi_i2s_read_status Failure = Some (- 1)"
    by blast+
  ultimately show ?thesis using i r c d v by simp
qed

section \<open>Read requests of a channel resolve in issue order\<close>

lemma in_state_set_state:
  "in_state (set_state p j s) i t \<longleftrightarrow>
     (if i = j \<and> j < length (bufs p) then s = t else in_state p i t)"
  by (auto simp: in_state_def set_state_def nth_list_update)

lemma ready_q_set_state [simp]: "ready_q (set_state p j s) = ready_q p"
  by (simp add: set_state_def)

lemma next_free_sound: "next_free p k n = Some i \<Longrightarrow> in_state p i Free"
  by (induction p k n rule: next_free.induct) (auto split: if_splits)

lemma set_state_other_inv:
  assumes "pool_inv p" "in_state p j t" "t \<noteq> Ready"
  shows "pool_inv (set_state p j s)"
  using assms unfolding pool_inv_def
  by (auto simp: in_state_set_state) (auto simp: in_state_def)

lemma acquire_inv:
  assumes "pool_inv p" "acquire_for_hardware p = Inr (p', i)"
  shows "pool_inv p' \<and> ready_q p' = ready_q p"
proof -
  from assms(2) obtain j where j: "next_free p (rotation p) (length (bufs p)) = Some j"
    and p': "p' = (set_state p j ArmedForHardware)\<lparr>rotation := Suc j mod length (bufs p)\<rparr>"
    by (auto simp: acquire_for_hardware_def split: option.splits)
  have "pool_inv (set_state p j ArmedForHardware)"
    using set_state_other_inv [OF assms(1) next_free_sound [OF j]] by simp
  then show ?thesis using p' by (simp add: pool_inv_def in_state_def)
qed

lemma release_inv:
  assumes "pool_inv p" "release p i = Inr p'"
  shows "pool_inv p' \<and> ready_q p' = ready_q p"
proof -
  from assms(2) have d: "in_state p i Draining"
    and p': "p' = set_state p i (case mode p of Slab \<Rightarrow> Free | Pingpong \<Rightarrow> ArmedForHardware)"
    by (auto simp: release_def split: if_splits)
  show ?thesis using set_state_other_inv [OF assms(1) d] p' by simp
qed

lemma mark_ready_inv:
  assumes "pool_inv p" "mark_ready p i n = Inr p'"
  shows "pool_inv p' \<and> ready_q p' = ready_q p @ [i]"
proof -
  from assms(2) have a: "in_state p i ArmedForHardware"
    and p': "p' = p\<lparr>bufs := (bufs p)[i := (bufs p ! i)\<lparr>filled := n, bstate := Ready\<rparr>],
                  ready_q := ready_q p @ [i]\<rparr>"
    by (auto simp: mark_ready_def split: if_splits)
  from a assms(1) have "i \<notin> set (ready_q p)"
    by (auto simp: pool_inv_def in_state_def)
  with assms(1) a show ?thesis unfolding p' pool_inv_def
    by (auto simp: in_state_def nth_list_update)
qed

text \<open>\<open>take_ready\<close> fails exactly when no buffer is Ready, and takes the oldest one.\<close>

lemma take_ready_inv:
  assumes "pool_inv p"
  shows "case take_ready p of
           Inl e \<Rightarrow> ready_q p = []
         | Inr (p', d) \<Rightarrow> pool_inv p' \<and> ready_q p = hd (ready_q p) # ready_q p'"
proof (cases "ready_q p")
  case Nil
  then show ?thesis by (simp add: take_ready_def)
next
  case (Cons i q)
  with assms have r: "in_state p i Ready" and nq: "i \<notin> set q" and dq: "distinct q"
    and rq: "\<forall>j\<in>set q. in_state p j Ready"
    by (auto simp: pool_inv_def)
  have "pool_inv (set_state (p\<lparr>ready_q := q\<rparr>) i Draining)"
    using nq dq rq unfolding pool_inv_def
    by (auto simp: in_state_set_state) (auto simp: in_state_def)
  with Cons r show ?thesis by (simp add: take_ready_def)
qed

lemma step_inv:
  assumes c: "chan_inv c"
  shows "chan_inv (step c e)"
proof -
  from c have pi: "pool_inv (chan_pool c)" by (simp add: chan_inv_def)
  show ?thesis
  proof (cases e)
    case Acquire
    with c show ?thesis
      by (auto simp: chan_inv_def fail_all_def split: sum.splits dest: acquire_inv)
  next
    case (Hw_complete i n eos)
    show ?thesis
    proof (cases "mark_ready (chan_pool c) i n")
      case (Inl a)
      then show ?thesis using c Hw_complete by (simp add: completion_def)
    next
      case (Inr p)
      note m = mark_ready_inv [OF pi Inr]
      from m have pp: "pool_inv p" by simp
      show ?thesis using c Hw_complete Inr m take_ready_inv [OF pp]
        by (auto simp: completion_def chan_inv_def fail_all_def resolve_def
            split: list.splits sum.splits)
    qed
  next
    case (Read_async t)
    show ?thesis using c Read_async take_ready_inv [OF pi]
      by (auto simp: read_request_def chan_inv_def resolve_def split: sum.splits)
  next
    case (Read_blocking k)
    show ?thesis using c Read_blocking take_ready_inv [OF pi]
      by (auto simp: read_request_def chan_inv_def resolve_def split: sum.splits)
  next
    case (Release i)
    with c show ?thesis
      by (auto simp: chan_inv_def split: sum.splits dest: release_inv)
  qed
qed

text \<open>
  One event keeps the order: the readers resolved so far followed by the readers still
  queued grow by exactly the request the event issues, at the end.
\<close>

lemma step_order:
  assumes c: "chan_inv c"
  shows "map fst (resolved (step c e)) @ pending (step c e)
       = map fst (resolved c) @ pending c @ issued [e]"
proof -
  from c have pi: "pool_inv (chan_pool c)" by (simp add: chan_inv_def)
  show ?thesis
  proof (cases e)
    case Acquire
    then show ?thesis
      by (auto simp: fail_all_def comp_def split: sum.splits)
  next
    case (Hw_complete i n eos)
    show ?thesis
    proof (cases "mark_ready (chan_pool c) i n")
      case (Inl a)
      then show ?thesis using Hw_complete by (simp add: completion_def)
    next
      case (Inr p)
      note m = mark_ready_inv [OF pi Inr]
      from m have pp: "pool_inv p" by simp
      show ?thesis using c Hw_complete Inr m take_ready_inv [OF pp]
        by (auto simp: completion_def chan_inv_def fail_all_def resolve_def comp_def
            split: list.splits sum.splits)
    qed
  next
    case (Read_async t)
    show ?thesis using c Read_async take_ready_inv [OF pi]
      by (auto simp: read_request_def chan_inv_def resolve_def split: sum.splits)
  next
    case (Read_blocking k)
    show ?thesis using c Read_blocking take_ready_inv [OF pi]
      by (auto simp: read_request_def chan_inv_def resolve_def split: sum.splits)
  next
    case (Release i)
    then show ?thesis by (auto split: sum.splits)
  qed
qed

lemma issued_append: "issued (xs @ ys) = issued xs @ issued ys"
  by (induction xs rule: issued.induct) auto

lemma tasks_append: "tasks (xs @ ys) = tasks xs @ tasks ys"
  by (induction xs rule: tasks.induct) auto

lemma run_order:
  "chan_inv c \<Longrightarrow>
   chan_inv (run c es) \<and>
   map fst (resolved (run c es)) @ pending (run c es)
     = map fst (resolved c) @ pending c @ issued es"
proof (induction es arbitrary: c)
  case Nil
  then show ?case by simp
next
  case (Cons e es)
  from Cons.prems have i: "chan_inv (step c e)" by (rule step_inv)
  have "issued (e # es) = issued [e] @ issued es"
    using issued_append [of "[e]" es] by simp
  with Cons.IH [OF i] step_order [OF Cons.prems, of e] show ?case
    by simp
qed

lemma init_inv: "chan_inv (init_channel m bs addrs)"
  by (simp add: chan_inv_def pool_inv_def init_channel_def)

lemma init_empty:
  "resolved (init_channel m bs addrs) = [] \<and> pending (init_channel m bs addrs) = []"
  by (simp add: init_channel_def)

lemma reached_inv: "chan_inv (reached m bs addrs es)"
  using run_order [OF init_inv, of m bs addrs es] by simp

lemma run_append: "run c (es @ fs) = run (run c es) fs"
  by (induction es arbitrary: c) auto

lemma run_snoc: "run c (es @ [e]) = step (run c es) e"
  by (simp add: run_append)

text \<open>
  A completion event with a full block for a slot the hardware owns resolves the oldest
  waiting request, with the descriptor of that block, and nothing else.
\<close>

lemma completion_resolves_oldest:
  assumes inv: "chan_inv c"
    and pend: "pending c = r # rs"
    and armed: "in_state (chan_pool c) i ArmedForHardware"
    and full: "\<not> short_block (chan_pool c) n eos"
  shows "resolved (step c (Hw_complete i n eos))
           = resolved c @ [(r, Inr (addr (bufs (chan_pool c) ! i), n))]
       \<and> pending (step c (Hw_complete i n eos)) = rs"
proof -
  from inv pend have q: "ready_q (chan_pool c) = []"
    by (auto simp: chan_inv_def)
  from armed have len: "i < length (bufs (chan_pool c))"
    by (simp add: in_state_def)
  show ?thesis
    using pend armed full q len
    by (simp add: completion_def mark_ready_def take_ready_def short_block_def
        in_state_def set_state_def resolve_def)
qed

lemma completion_short_block_fails_all:
  assumes armed: "in_state (chan_pool c) i ArmedForHardware"
    and short: "short_block (chan_pool c) n eos"
  shows "resolved (step c (Hw_complete i n eos))
           = resolved c @ map (\<lambda>r. (r, Inl ShortBlock)) (pending c)
       \<and> pending (step c (Hw_complete i n eos)) = []"
  using assms
  by (simp add: completion_def mark_ready_def short_block_def fail_all_def)

text \<open>A request that finds a Ready buffer takes the oldest one at once; otherwise it queues.\<close>

lemma read_request_ready:
  assumes inv: "chan_inv c" and q: "ready_q (chan_pool c) = j # q"
  shows "resolved (read_request c r)
           = resolved c
             @ [(r, Inr (addr (bufs (chan_pool c) ! j), filled (bufs (chan_pool c) ! j)))]
       \<and> pending (read_request c r) = []"
proof -
  from inv q have "in_state (chan_pool c) j Ready" and "pending c = []"
    by (auto simp: chan_inv_def pool_inv_def)
  with q show ?thesis
    by (simp add: read_request_def take_ready_def resolve_def)
qed

lemma read_request_none_ready:
  assumes q: "ready_q (chan_pool c) = []"
  shows "resolved (read_request c r) = resolved c
       \<and> pending (read_request c r) = pending c @ [r]"
  using q by (simp add: read_request_def take_ready_def)

text \<open>
  Claim C2. On a channel, after any sequence \<open>es\<close> of events from the opening of the
  device (read requests, hardware completions, buffers acquired and released, in any
  interleaving):
  \<^item> the readers resolved so far, in the order they were resolved, followed by the readers
    still queued, oldest first, are exactly the readers issued so far, in issue order, and
    the same holds of the asynchronous tasks alone;
  \<^item> when requests wait and a completion event arrives for a slot the hardware owns, with
    a full block, the event resolves the oldest waiting request, with the address of that
    slot and the byte count of the event, and the requests behind it stay queued in
    their order;
  \<^item> when such an event carries a short block, it resolves every waiting request with
    \<open>ShortBlock\<close>, oldest first;
  \<^item> an asynchronous read issued while a buffer is Ready resolves at once with the
    oldest Ready buffer, and then no request is waiting that it could overtake; issued
    while no buffer is Ready, it resolves nothing and queues behind the requests already
    waiting.
  So the requests resolve one per completion event, in the order they were issued, and a
  later request is never resolved before an earlier one.
\<close>

theorem read_requests_resolve_in_issue_order:
  "map fst (resolved (reached m bs addrs es)) @ pending (reached m bs addrs es) = issued es
   \<and> tasks (map fst (resolved (reached m bs addrs es)))
       @ tasks (pending (reached m bs addrs es)) = tasks (issued es)
   \<and> (pending (reached m bs addrs es) = r # rs
        \<and> in_state (chan_pool (reached m bs addrs es)) i ArmedForHardware
        \<and> \<not> short_block (chan_pool (reached m bs addrs es)) n eos \<longrightarrow>
        resolved (reached m bs addrs (es @ [Hw_complete i n eos]))
          = resolved (reached m bs addrs es)
            @ [(r, Inr (addr (bufs (chan_pool (reached m bs addrs es)) ! i), n))]
        \<and> pending (reached m bs addrs (es @ [Hw_complete i n eos])) = rs)
   \<and> (in_state (chan_pool (reached m bs addrs es)) i ArmedForHardware
        \<and> short_block (chan_pool (reached m bs addrs es)) n eos \<longrightarrow>
        resolved (reached m bs addrs (es @ [Hw_complete i n eos]))
          = resolved (reached m bs addrs es)
            @ map (\<lambda>r. (r, Inl ShortBlock)) (pending (reached m bs addrs es))
        \<and> pending (reached m bs addrs (es @ [Hw_complete i n eos])) = [])
   \<and> (ready_q (chan_pool (reached m bs addrs es)) = j # q \<longrightarrow>
        pending (reached m bs addrs es) = []
        \<and> resolved (reached m bs addrs (es @ [Read_async t]))
          = resolved (reached m bs addrs es)
            @ [(Task t, Inr (addr (bufs (chan_pool (reached m bs addrs es)) ! j),
                             filled (bufs (chan_pool (reached m bs addrs es)) ! j)))]
        \<and> pending (reached m bs addrs (es @ [Read_async t])) = [])
   \<and> (ready_q (chan_pool (reached m bs addrs es)) = [] \<longrightarrow>
        resolved (reached m bs addrs (es @ [Read_async t])) = resolved (reached m bs addrs es)
        \<and> pending (reached m bs addrs (es @ [Read_async t]))
          = pending (reached m bs addrs es) @ [Task t])"
proof -
  let ?c = "reached m bs addrs es"
  have inv: "chan_inv ?c" by (rule reached_inv)
  have all: "map fst (resolved ?c) @ pending ?c = issued es"
    using run_order [OF init_inv, of m bs addrs es] init_empty [of m bs addrs] by simp
  have "tasks (map fst (resolved ?c) @ pending ?c) = tasks (issued es)"
    by (simp only: all)
  then have async: "tasks (map fst (resolved ?c)) @ tasks (pending ?c) = tasks (issued es)"
    by (simp only: tasks_append)
  have full: "resolved (reached m bs addrs (es @ [Hw_complete i n eos]))
          = resolved ?c @ [(r, Inr (addr (bufs (chan_pool ?c) ! i), n))]
        \<and> pending (reached m bs addrs (es @ [Hw_complete i n eos])) = rs"
    if h: "pending ?c = r # rs \<and> in_state (chan_pool ?c) i ArmedForHardware
        \<and> \<not> short_block (chan_pool ?c) n eos"
  proof -
    from h have p: "pending ?c = r # rs"
      and a: "in_state (chan_pool ?c) i ArmedForHardware"
      and f: "\<not> short_block (chan_pool ?c) n eos"
      by blast+
    show ?thesis
      unfolding run_snoc by (rule completion_resolves_oldest [OF inv p a f])
  qed
  have short: "resolved (reached m bs addrs (es @ [Hw_complete i n eos]))
          = resolved ?c @ map (\<lambda>r. (r, Inl ShortBlock)) (pending ?c)
        \<and> pending (reached m bs addrs (es @ [Hw_complete i n eos])) = []"
    if h: "in_state (chan_pool ?c) i ArmedForHardware \<and> short_block (chan_pool ?c) n eos"
  proof -
    from h have a: "in_state (chan_pool ?c) i ArmedForHardware"
      and f: "short_block (chan_pool ?c) n eos"
      by blast+
    show ?thesis
      unfolding run_snoc by (rule completion_short_block_fails_all [OF a f])
  qed
  have early: "pending ?c = []
        \<and> resolved (reached m bs addrs (es @ [Read_async t]))
          = resolved ?c
            @ [(Task t, Inr (addr (bufs (chan_pool ?c) ! j), filled (bufs (chan_pool ?c) ! j)))]
        \<and> pending (reached m bs addrs (es @ [Read_async t])) = []"
    if "ready_q (chan_pool ?c) = j # q"
  proof -
    from inv that have "pending ?c = []" by (auto simp: chan_inv_def)
    with read_request_ready [OF inv that, of "Task t"] show ?thesis
      by (simp add: run_snoc)
  qed
  have late: "resolved (reached m bs addrs (es @ [Read_async t])) = resolved ?c
        \<and> pending (reached m bs addrs (es @ [Read_async t])) = pending ?c @ [Task t]"
    if "ready_q (chan_pool ?c) = []"
    using read_request_none_ready [OF that, of "Task t"] by (simp add: run_snoc)
  from all async full short early late show ?thesis by blast
qed

text \<open>
  Three tasks wait and the hardware owns the first buffer. A completion event with a full
  block resolves task 1 with that buffer and leaves tasks 2 and 3 queued; one with a short
  block fails all three, oldest first. A task issued while a buffer is Ready takes it at
  once; a task issued on the fresh channel queues.
\<close>

theorem read_requests_resolve_in_issue_order_witness:
  "pending (reached Pingpong 64 [4096, 8192]
      [Read_async 1, Read_async 2, Read_async 3, Acquire]) = [Task 1, Task 2, Task 3]
   \<and> in_state (chan_pool (reached Pingpong 64 [4096, 8192]
      [Read_async 1, Read_async 2, Read_async 3, Acquire])) 0 ArmedForHardware
   \<and> \<not> short_block (chan_pool (reached Pingpong 64 [4096, 8192]
      [Read_async 1, Read_async 2, Read_async 3, Acquire])) 64 False
   \<and> resolved (reached Pingpong 64 [4096, 8192]
      [Read_async 1, Read_async 2, Read_async 3, Acquire, Hw_complete 0 64 False])
     = [(Task 1, Inr (4096, 64))]
   \<and> pending (reached Pingpong 64 [4096, 8192]
      [Read_async 1, Read_async 2, Read_async 3, Acquire, Hw_complete 0 64 False])
     = [Task 2, Task 3]
   \<and> short_block (chan_pool (reached Pingpong 64 [4096, 8192]
      [Read_async 1, Read_async 2, Read_async 3, Acquire])) 10 False
   \<and> resolved (reached Pingpong 64 [4096, 8192]
      [Read_async 1, Read_async 2, Read_async 3, Acquire, Hw_complete 0 10 False])
     = [(Task 1, Inl ShortBlock), (Task 2, Inl ShortBlock), (Task 3, Inl ShortBlock)]
   \<and> pending (reached Pingpong 64 [4096, 8192]
      [Read_async 1, Read_async 2, Read_async 3, Acquire, Hw_complete 0 10 False]) = []
   \<and> ready_q (chan_pool (reached Slab 64 [4096, 8192] [Acquire, Hw_complete 0 64 False])) = [0]
   \<and> resolved (reached Slab 64 [4096, 8192] [Acquire, Hw_complete 0 64 False, Read_async 1])
     = [(Task 1, Inr (4096, 64))]
   \<and> pending (reached Slab 64 [4096, 8192] [Acquire, Hw_complete 0 64 False, Read_async 1])
     = []
   \<and> ready_q (chan_pool (reached Slab 64 [4096, 8192] [])) = []
   \<and> resolved (reached Slab 64 [4096, 8192] [Read_async 1]) = []
   \<and> pending (reached Slab 64 [4096, 8192] [Read_async 1]) = [Task 1]
   \<and> issued [Read_async 1, Read_async 2, Read_async 3, Acquire] = [Task 1, Task 2, Task 3]"
proof -
  let ?es = "[Read_async 1, Read_async 2, Read_async 3, Acquire]"
  let ?fs = "[Acquire, Hw_complete 0 64 False]"
  have s1: "reached Pingpong 64 [4096, 8192] ?es =
      \<lparr>chan_pool = \<lparr>mode = Pingpong, block_size = 64,
                    bufs = [\<lparr>addr = 4096, filled = 0, bstate = ArmedForHardware\<rparr>,
                            \<lparr>addr = 8192, filled = 0, bstate = Free\<rparr>],
                    rotation = 1, ready_q = []\<rparr>,
       pending = [Task 1, Task 2, Task 3], resolved = [], stopped = False\<rparr>"
    by (simp add: init_channel_def read_request_def acquire_for_hardware_def take_ready_def
        in_state_def set_state_def numeral_2_eq_2)
  have s2: "reached Slab 64 [4096, 8192] ?fs =
      \<lparr>chan_pool = \<lparr>mode = Slab, block_size = 64,
                    bufs = [\<lparr>addr = 4096, filled = 64, bstate = Ready\<rparr>,
                            \<lparr>addr = 8192, filled = 0, bstate = Free\<rparr>],
                    rotation = 1, ready_q = [0]\<rparr>,
       pending = [], resolved = [], stopped = False\<rparr>"
    by (simp add: init_channel_def completion_def acquire_for_hardware_def mark_ready_def
        short_block_def in_state_def set_state_def numeral_2_eq_2)
  have s3: "reached Slab 64 [4096, 8192] [] =
      \<lparr>chan_pool = \<lparr>mode = Slab, block_size = 64,
                    bufs = [\<lparr>addr = 4096, filled = 0, bstate = Free\<rparr>,
                            \<lparr>addr = 8192, filled = 0, bstate = Free\<rparr>],
                    rotation = 0, ready_q = []\<rparr>,
       pending = [], resolved = [], stopped = False\<rparr>"
    by (simp add: init_channel_def)
  have h1: "pending (reached Pingpong 64 [4096, 8192] ?es) = [Task 1, Task 2, Task 3]"
    and h2: "in_state (chan_pool (reached Pingpong 64 [4096, 8192] ?es)) 0 ArmedForHardware"
    and h3: "\<not> short_block (chan_pool (reached Pingpong 64 [4096, 8192] ?es)) 64 False"
    and h4: "short_block (chan_pool (reached Pingpong 64 [4096, 8192] ?es)) 10 False"
    and a1: "addr (bufs (chan_pool (reached Pingpong 64 [4096, 8192] ?es)) ! 0) = 4096"
    and r1: "resolved (reached Pingpong 64 [4096, 8192] ?es) = []"
    unfolding s1 by (simp_all add: in_state_def short_block_def)
  have h5: "ready_q (chan_pool (reached Slab 64 [4096, 8192] ?fs)) = [0]"
    and a2: "addr (bufs (chan_pool (reached Slab 64 [4096, 8192] ?fs)) ! 0) = 4096"
    and f2: "filled (bufs (chan_pool (reached Slab 64 [4096, 8192] ?fs)) ! 0) = 64"
    and r2: "resolved (reached Slab 64 [4096, 8192] ?fs) = []"
    unfolding s2 by simp_all
  have h6: "ready_q (chan_pool (reached Slab 64 [4096, 8192] [])) = []"
    and p3: "pending (reached Slab 64 [4096, 8192] []) = []"
    and r3: "resolved (reached Slab 64 [4096, 8192] []) = []"
    unfolding s3 by simp_all
  note full = read_requests_resolve_in_issue_order
    [where m = Pingpong and bs = 64 and addrs = "[4096, 8192]" and es = ?es
       and r = "Task 1" and rs = "[Task 2, Task 3]" and i = 0 and n = 64 and eos = False]
  note short = read_requests_resolve_in_issue_order
    [where m = Pingpong and bs = 64 and addrs = "[4096, 8192]" and es = ?es
       and i = 0 and n = 10 and eos = False]
  note early = read_requests_resolve_in_issue_order
    [where m = Slab and bs = 64 and addrs = "[4096, 8192]" and es = ?fs
       and j = 0 and q = "[]" and t = 1]
  note late = read_requests_resolve_in_issue_order
    [where m = Slab and bs = 64 and addrs = "[4096, 8192]" and es = "[]" and t = 1]
  from full h1 h2 h3
  have c1: "resolved (reached Pingpong 64 [4096, 8192] (?es @ [Hw_complete 0 64 False]))
        = resolved (reached Pingpong 64 [4096, 8192] ?es)
          @ [(Task 1, Inr (addr (bufs (chan_pool (reached Pingpong 64 [4096, 8192] ?es)) ! 0), 64))]
      \<and> pending (reached Pingpong 64 [4096, 8192] (?es @ [Hw_complete 0 64 False]))
        = [Task 2, Task 3]"
    by blast
  from short h2 h4
  have c2: "resolved (reached Pingpong 64 [4096, 8192] (?es @ [Hw_complete 0 10 False]))
        = resolved (reached Pingpong 64 [4096, 8192] ?es)
          @ map (\<lambda>r. (r, Inl ShortBlock)) (pending (reached Pingpong 64 [4096, 8192] ?es))
      \<and> pending (reached Pingpong 64 [4096, 8192] (?es @ [Hw_complete 0 10 False])) = []"
    by blast
  from early h5
  have c3: "resolved (reached Slab 64 [4096, 8192] (?fs @ [Read_async 1]))
        = resolved (reached Slab 64 [4096, 8192] ?fs)
          @ [(Task 1, Inr (addr (bufs (chan_pool (reached Slab 64 [4096, 8192] ?fs)) ! 0),
                           filled (bufs (chan_pool (reached Slab 64 [4096, 8192] ?fs)) ! 0)))]
      \<and> pending (reached Slab 64 [4096, 8192] (?fs @ [Read_async 1])) = []"
    by blast
  from late h6
  have c4: "resolved (reached Slab 64 [4096, 8192] ([] @ [Read_async 1]))
        = resolved (reached Slab 64 [4096, 8192] [])
      \<and> pending (reached Slab 64 [4096, 8192] ([] @ [Read_async 1]))
        = pending (reached Slab 64 [4096, 8192] []) @ [Task 1]"
    by blast
  have i: "issued ?es = [Task 1, Task 2, Task 3]" by simp
  have d1: "resolved (reached Pingpong 64 [4096, 8192]
        [Read_async 1, Read_async 2, Read_async 3, Acquire, Hw_complete 0 64 False])
      = [(Task 1, Inr (4096, 64))]
    \<and> pending (reached Pingpong 64 [4096, 8192]
        [Read_async 1, Read_async 2, Read_async 3, Acquire, Hw_complete 0 64 False])
      = [Task 2, Task 3]"
    using c1 by (simp only: a1 r1 append.simps)
  have d2: "resolved (reached Pingpong 64 [4096, 8192]
        [Read_async 1, Read_async 2, Read_async 3, Acquire, Hw_complete 0 10 False])
      = [(Task 1, Inl ShortBlock), (Task 2, Inl ShortBlock), (Task 3, Inl ShortBlock)]
    \<and> pending (reached Pingpong 64 [4096, 8192]
        [Read_async 1, Read_async 2, Read_async 3, Acquire, Hw_complete 0 10 False]) = []"
    using c2 by (simp only: h1 r1 append.simps list.map)
  have d3: "resolved (reached Slab 64 [4096, 8192] [Acquire, Hw_complete 0 64 False, Read_async 1])
      = [(Task 1, Inr (4096, 64))]
    \<and> pending (reached Slab 64 [4096, 8192] [Acquire, Hw_complete 0 64 False, Read_async 1]) = []"
    using c3 by (simp only: a2 f2 r2 append.simps)
  have d4: "resolved (reached Slab 64 [4096, 8192] [Read_async 1]) = []
    \<and> pending (reached Slab 64 [4096, 8192] [Read_async 1]) = [Task 1]"
    using c4 by (simp only: p3 r3 append.simps)
  from h1 h2 h3 d1 h4 d2 h5 d3 h6 d4 i show ?thesis by blast
qed

end
